theory Spec2Isabelle
  imports Main "HOL-Library.Word"
begin

section \<open>Backend (backend.go)\<close>

text \<open>
  The Go struct \<^verbatim>\<open>Backend\<close>. The \<^verbatim>\<open>sync.RWMutex\<close> field only serialises the
  accessors; each method below is one critical section, modelled as one atomic state
  transition. \<^verbatim>\<open>failureCount\<close> is a Go \<^verbatim>\<open>int\<close> (64 bits on the usual targets) and
  \<^verbatim>\<open>ActiveConnections\<close> an \<^verbatim>\<open>int64\<close>: both are 64-bit words whose \<open>+\<close> wraps and
  whose comparisons are the signed ones (\<open><s\<close>, \<open>\<le>s\<close>).
\<close>

record Backend =
  URL :: string
  Healthy :: bool
  failureCount :: "64 word"
  ActiveConnections :: "64 word"

definition IsHealthy :: "Backend \<Rightarrow> bool" where
  "IsHealthy b = Healthy b"

definition MarkHealthy :: "Backend \<Rightarrow> Backend" where
  "MarkHealthy b = (b\<lparr>Healthy := True\<rparr>)\<lparr>failureCount := 0\<rparr>"

definition MarkUnHealthy :: "Backend \<Rightarrow> Backend" where
  "MarkUnHealthy b = b\<lparr>Healthy := False\<rparr>"

definition IncrementFailure :: "Backend \<Rightarrow> Backend" where
  "IncrementFailure b =
     (let b1 = b\<lparr>failureCount := failureCount b + 1\<rparr>
      in if 5 \<le>s failureCount b1 then b1\<lparr>Healthy := False\<rparr> else b1)"

text \<open>The three mutating operations as data, and a run of them from left to right.\<close>

datatype backend_op = OpMarkHealthy | OpMarkUnHealthy | OpIncrementFailure

fun apply_backend_op :: "Backend \<Rightarrow> backend_op \<Rightarrow> Backend" where
  "apply_backend_op b OpMarkHealthy = MarkHealthy b"
| "apply_backend_op b OpMarkUnHealthy = MarkUnHealthy b"
| "apply_backend_op b OpIncrementFailure = IncrementFailure b"

definition run_backend_ops :: "Backend \<Rightarrow> backend_op list \<Rightarrow> Backend" where
  "run_backend_ops b ops = foldl apply_backend_op b ops"

text \<open>The invariant of the data model: at or above the threshold 5 the backend is unhealthy.\<close>

definition threshold_inv :: "Backend \<Rightarrow> bool" where
  "threshold_inv b = (5 \<le>s failureCount b \<longrightarrow> \<not> Healthy b)"

section \<open>Selection strategies (round-robin in proxy.go, least-conn.go)\<close>

text \<open>
  A \<^verbatim>\<open>*Backend\<close> is a pointer to one of the objects of the balancer's slice; the slice
  is built once in \<^verbatim>\<open>main\<close> and never changes in length, so a pointer is modelled by
  the position of its target in the slice, and \<^verbatim>\<open>nil\<close> by \<open>None\<close>.
  Indexing a slice out of range is a run-time panic in Go.
\<close>

type_synonym backend_ref = nat

datatype panic = IndexOutOfRange

text \<open>
  The body of \<^verbatim>\<open>RoundRobin.NextBackend\<close>: an unbounded \<^verbatim>\<open>for\<close> loop over the cursor
  \<^verbatim>\<open>rr.index\<close>, which is a Go \<^verbatim>\<open>int\<close>. A call that never returns is the value \<open>None\<close>.
  The result is the returned pointer and the cursor the call leaves behind. Past the bounds
  check \<open>idx + 1\<close> is positive and at most the length, so no overflow can occur and Go's
  truncating \<^verbatim>\<open>%\<close> agrees with \<open>mod\<close>.
\<close>

partial_function (option) RoundRobin_loop ::
  "Backend list \<Rightarrow> int \<Rightarrow> int \<Rightarrow> (panic + (backend_ref option \<times> int)) option" where
  "RoundRobin_loop backends start idx =
     (if idx < 0 \<or> int (length backends) \<le> idx then Some (Inl IndexOutOfRange)
      else if IsHealthy (backends ! nat idx)
        then Some (Inr (Some (nat idx), (idx + 1) mod int (length backends)))
      else if start = (idx + 1) mod int (length backends)
        then Some (Inr (None, (idx + 1) mod int (length backends)))
      else RoundRobin_loop backends start ((idx + 1) mod int (length backends)))"

definition RoundRobin_NextBackend ::
  "int \<Rightarrow> Backend list \<Rightarrow> (panic + (backend_ref option \<times> int)) option" where
  "RoundRobin_NextBackend idx backends = RoundRobin_loop backends idx idx"

text \<open>
  The same loop body with a bound on the number of iterations: \<open>None\<close> when the bound is
  used up before the loop returns. It serves to count iterations.
\<close>

fun RoundRobin_loop_bounded ::
  "nat \<Rightarrow> Backend list \<Rightarrow> int \<Rightarrow> int \<Rightarrow> (panic + (backend_ref option \<times> int)) option" where
  "RoundRobin_loop_bounded 0 backends start idx = None"
| "RoundRobin_loop_bounded (Suc n) backends start idx =
     (if idx < 0 \<or> int (length backends) \<le> idx then Some (Inl IndexOutOfRange)
      else if IsHealthy (backends ! nat idx)
        then Some (Inr (Some (nat idx), (idx + 1) mod int (length backends)))
      else if start = (idx + 1) mod int (length backends)
        then Some (Inr (None, (idx + 1) mod int (length backends)))
      else RoundRobin_loop_bounded n backends start ((idx + 1) mod int (length backends)))"

text \<open>
  A run of \<open>n\<close> consecutive calls on one \<^verbatim>\<open>RoundRobin\<close> object: the returned pointers
  in call order, and the final cursor. A panic ends the run.
\<close>

fun RoundRobin_calls ::
  "nat \<Rightarrow> int \<Rightarrow> Backend list \<Rightarrow> (panic + (backend_ref option list \<times> int)) option" where
  "RoundRobin_calls 0 idx backends = Some (Inr ([], idx))"
| "RoundRobin_calls (Suc n) idx backends =
     (case RoundRobin_NextBackend idx backends of
        None \<Rightarrow> None
      | Some (Inl e) \<Rightarrow> Some (Inl e)
      | Some (Inr (r, idx')) \<Rightarrow>
          (case RoundRobin_calls n idx' backends of
             None \<Rightarrow> None
           | Some (Inl e) \<Rightarrow> Some (Inl e)
           | Some (Inr (rs, idx'')) \<Rightarrow> Some (Inr (r # rs, idx''))))"

text \<open>
  \<^verbatim>\<open>LeastConnection.NextBackend\<close>: one pass over the slice with the running \<^verbatim>\<open>best\<close>
  and \<^verbatim>\<open>min\<close>; \<open>pos\<close> is the position of the element the \<^verbatim>\<open>range\<close> loop is at.
\<close>

definition MaxInt64 :: "64 word" where
  "MaxInt64 = 0x7FFFFFFFFFFFFFFF"

fun LeastConnection_loop ::
  "Backend list \<Rightarrow> nat \<Rightarrow> backend_ref option \<Rightarrow> 64 word \<Rightarrow> backend_ref option" where
  "LeastConnection_loop [] pos best mn = best"
| "LeastConnection_loop (backend # rest) pos best mn =
     (if \<not> IsHealthy backend then LeastConnection_loop rest (Suc pos) best mn
      else if ActiveConnections backend <s mn
        then LeastConnection_loop rest (Suc pos) (Some pos) (ActiveConnections backend)
      else LeastConnection_loop rest (Suc pos) best mn)"

definition LeastConnection_NextBackend :: "Backend list \<Rightarrow> backend_ref option" where
  "LeastConnection_NextBackend backends = LeastConnection_loop backends 0 None MaxInt64"

section \<open>The balancer (loadbalancer.go)\<close>

text \<open>
  The interface \<^verbatim>\<open>BalancerAlgorithm\<close> has two implementations; a \<^verbatim>\<open>RoundRobin\<close> object
  carries its cursor, a \<^verbatim>\<open>LeastConnection\<close> object carries nothing. The balancer holds
  the only reference to its strategy object, so the object is stored in the balancer's
  state; the nil interface value is \<open>None\<close>.
\<close>

datatype BalancerAlgorithm = RoundRobin int | LeastConnection

fun Name :: "BalancerAlgorithm \<Rightarrow> string" where
  "Name (RoundRobin idx) = ''round-robin''"
| "Name LeastConnection = ''least-connection''"

fun algorithm_NextBackend ::
  "BalancerAlgorithm \<Rightarrow> Backend list
     \<Rightarrow> (panic + (backend_ref option \<times> BalancerAlgorithm)) option" where
  "algorithm_NextBackend (RoundRobin idx) bs =
     (case RoundRobin_NextBackend idx bs of
        None \<Rightarrow> None
      | Some (Inl e) \<Rightarrow> Some (Inl e)
      | Some (Inr (r, idx')) \<Rightarrow> Some (Inr (r, RoundRobin idx')))"
| "algorithm_NextBackend LeastConnection bs =
     Some (Inr (LeastConnection_NextBackend bs, LeastConnection))"

record LoadBalancer =
  backends :: "Backend list"
  index :: int
  algorithm :: "BalancerAlgorithm option"

text \<open>\<^verbatim>\<open>SetAlgorithm\<close> is called with a freshly allocated, non-nil strategy object.\<close>

definition SetAlgorithm :: "LoadBalancer \<Rightarrow> BalancerAlgorithm \<Rightarrow> LoadBalancer" where
  "SetAlgorithm lb algo = lb\<lparr>algorithm := Some algo\<rparr>"

definition NextBackend ::
  "LoadBalancer \<Rightarrow> (panic + (backend_ref option \<times> LoadBalancer)) option" where
  "NextBackend lb =
     (let algo = (case algorithm lb of None \<Rightarrow> RoundRobin 0 | Some a \<Rightarrow> a)
      in case algorithm_NextBackend algo (backends lb) of
           None \<Rightarrow> None
         | Some (Inl e) \<Rightarrow> Some (Inl e)
         | Some (Inr (r, algo')) \<Rightarrow> Some (Inr (r, lb\<lparr>algorithm := Some algo'\<rparr>)))"

subsection \<open>The admin handler and the routes of \<^verbatim>\<open>main\<close>\<close>

text \<open>
  Of a request the handler reads the path, the method and the query, whose
  \<^verbatim>\<open>Get\<close> returns the first value of a key and the empty string when the key is absent.
  Of the \<^verbatim>\<open>http.ResponseWriter\<close> the model keeps the status line and the body:
  the first \<^verbatim>\<open>WriteHeader\<close> fixes the status, a later call is superfluous and changes
  nothing, and a \<^verbatim>\<open>Write\<close> before any \<^verbatim>\<open>WriteHeader\<close> sends 200.
\<close>

record Request =
  Path :: string
  Method :: string
  Query :: "(string \<times> string) list"

definition Query_Get :: "Request \<Rightarrow> string \<Rightarrow> string" where
  "Query_Get r k = (case map_of (Query r) k of None \<Rightarrow> [] | Some v \<Rightarrow> v)"

record ResponseWriter =
  status :: "nat option"
  body :: string

definition WriteHeader :: "ResponseWriter \<Rightarrow> nat \<Rightarrow> ResponseWriter" where
  "WriteHeader w code = (if status w = None then w\<lparr>status := Some code\<rparr> else w)"

definition Write :: "ResponseWriter \<Rightarrow> string \<Rightarrow> ResponseWriter" where
  "Write w bytes = (WriteHeader w 200)\<lparr>body := body w @ bytes\<rparr>"

definition StatusOK :: nat where "StatusOK = 200"
definition StatusBadRequest :: nat where "StatusBadRequest = 400"
definition StatusNotFound :: nat where "StatusNotFound = 404"
definition StatusBadGateway :: nat where "StatusBadGateway = 502"

definition ServeHTTP ::
  "LoadBalancer \<Rightarrow> ResponseWriter \<Rightarrow> Request \<Rightarrow> LoadBalancer \<times> ResponseWriter" where
  "ServeHTTP lb w r =
     (if Path r = ''/change-algorithm'' \<and> Method r = ''POST'' then
        (if Query_Get r ''algorithm'' = ''round-robin'' then
           (SetAlgorithm lb (RoundRobin 0),
            WriteHeader (WriteHeader w StatusOK) StatusNotFound)
         else if Query_Get r ''algorithm'' = ''least-connection'' then
           (SetAlgorithm lb LeastConnection,
            WriteHeader (WriteHeader w StatusOK) StatusNotFound)
         else (lb, WriteHeader w StatusBadRequest))
      else (lb, WriteHeader w StatusNotFound))"

text \<open>
  \<^verbatim>\<open>main\<close> registers two patterns on its \<^verbatim>\<open>http.ServeMux\<close>:
  \<^verbatim>\<open>"/"\<close> for the reverse proxy and \<^verbatim>\<open>"POST /admin/change-algorithm"\<close> for the
  balancer. The mux hands a request to the most specific pattern that matches its method
  and path, and passes the request on with its path as it came. The model is for requests
  whose path is clean; an unclean path (a doubled slash, a dot segment), which the mux
  answers with a redirect of its own, is outside the model.
\<close>

datatype route = ToLoadBalancer | ToReverseProxy

definition main_mux :: "Request \<Rightarrow> route" where
  "main_mux r =
     (if Method r = ''POST'' \<and> Path r = ''/admin/change-algorithm'' then ToLoadBalancer
      else ToReverseProxy)"

section \<open>The reverse-proxy hooks (proxy.go)\<close>

text \<open>
  The request context holds the values stored under \<^verbatim>\<open>loadBalancerErrKey\<close> and
  \<^verbatim>\<open>backendKey\<close> (the start time is left out). The outbound request is its URL and
  its context. \<^verbatim>\<open>Director\<close> changes the URL through the pointer it is given; its last
  statement \<^verbatim>\<open>r = r.WithContext(ctx)\<close> assigns a copy of the request to the closure's
  own parameter, so the context \<^verbatim>\<open>ctx\<close> it has built is not stored in the request the
  proxy holds. The model returns both: the request as the proxy sees it afterwards, and
  \<^verbatim>\<open>ctx\<close>. \<^verbatim>\<open>url.Parse\<close> is not modelled: for a backend URL that parses and has no
  query or fragment, as those of \<^verbatim>\<open>main\<close>, the rewritten URL is the backend's URL
  followed by the path. A backend URL that does not parse (a nil target, dereferenced
  after the increment) is outside the model.
\<close>

record Context =
  loadBalancerErrValue :: "string option"
  backendValue :: "backend_ref option"

record OutRequest =
  reqURL :: string
  reqContext :: Context

definition AddActiveConnections :: "LoadBalancer \<Rightarrow> backend_ref \<Rightarrow> 64 word \<Rightarrow> LoadBalancer" where
  "AddActiveConnections lb p d =
     lb\<lparr>backends := (backends lb)
        [p := (backends lb ! p)\<lparr>ActiveConnections := ActiveConnections (backends lb ! p) + d\<rparr>]\<rparr>"

definition Director ::
  "LoadBalancer \<Rightarrow> OutRequest \<Rightarrow> (panic + (LoadBalancer \<times> OutRequest \<times> Context)) option" where
  "Director lb r =
     (case NextBackend lb of
        None \<Rightarrow> None
      | Some (Inl e) \<Rightarrow> Some (Inl e)
      | Some (Inr (None, lb1)) \<Rightarrow>
          Some (Inr (lb1, r\<lparr>reqURL := []\<rparr>,
            (reqContext r)\<lparr>loadBalancerErrValue := Some ''no healthy backend''\<rparr>))
      | Some (Inr (Some p, lb1)) \<Rightarrow>
          Some (Inr (AddActiveConnections lb1 p 1,
            r\<lparr>reqURL := URL (backends lb1 ! p) @ reqURL r\<rparr>,
            (reqContext r)\<lparr>backendValue := Some p\<rparr>)))"

definition ErrorHandler ::
  "LoadBalancer \<Rightarrow> ResponseWriter \<Rightarrow> Context \<Rightarrow> LoadBalancer \<times> ResponseWriter" where
  "ErrorHandler lb w ctx =
     (if loadBalancerErrValue ctx \<noteq> None then
        (lb, Write (WriteHeader w StatusBadGateway) ''no healthy backend available'')
      else
        (case backendValue ctx of
           None \<Rightarrow> lb
         | Some p \<Rightarrow> lb\<lparr>backends := (backends lb)[p := IncrementFailure (backends lb ! p)]\<rparr>,
         Write (WriteHeader w StatusBadGateway) ''Bad Gateway''))"

definition ModifyResponse :: "LoadBalancer \<Rightarrow> Context \<Rightarrow> LoadBalancer" where
  "ModifyResponse lb ctx =
     (case backendValue ctx of
        None \<Rightarrow> lb
      | Some p \<Rightarrow> AddActiveConnections lb p (- 1))"

section \<open>Specification predicates and example states\<close>

text \<open>
  The selection the least-connection strategy is specified to make: position \<open>p\<close> holds a
  healthy backend whose active-connection count is minimal among the healthy backends
  (signed comparison), and every healthy backend before \<open>p\<close> has a strictly larger count.
\<close>

definition least_connected :: "Backend list \<Rightarrow> backend_ref \<Rightarrow> bool" where
  "least_connected bs p =
     (p < length bs \<and> Healthy (bs ! p)
      \<and> (\<forall>q < length bs. Healthy (bs ! q) \<longrightarrow>
             ActiveConnections (bs ! p) \<le>s ActiveConnections (bs ! q))
      \<and> (\<forall>q < p. Healthy (bs ! q) \<longrightarrow>
             ActiveConnections (bs ! p) <s ActiveConnections (bs ! q)))"

text \<open>
  The loop invariant of \<^verbatim>\<open>LeastConnection.NextBackend\<close> after the prefix \<open>pre\<close> has been
  scanned: \<^verbatim>\<open>min\<close> is the count of \<^verbatim>\<open>best\<close> and below \<^verbatim>\<open>math.MaxInt64\<close>, or still the
  initial \<^verbatim>\<open>math.MaxInt64\<close> with every healthy backend of the prefix at that count.
\<close>

definition scan_inv :: "Backend list \<Rightarrow> backend_ref option \<Rightarrow> 64 word \<Rightarrow> bool" where
  "scan_inv pre best mn =
     (case best of
        None \<Rightarrow> mn = MaxInt64 \<and> (\<forall>b \<in> set pre. Healthy b \<longrightarrow> ActiveConnections b = MaxInt64)
      | Some p \<Rightarrow>
          mn = ActiveConnections (pre ! p) \<and> mn <s MaxInt64 \<and> least_connected pre p)"

text \<open>Balancers as \<^verbatim>\<open>main\<close> builds them: no strategy set, all backends healthy.\<close>

definition single_backend_balancer :: LoadBalancer where
  "single_backend_balancer = \<lparr>backends =
     [\<lparr>URL = ''http://localhost:8001'', Healthy = True, failureCount = 0, ActiveConnections = 0\<rparr>],
     index = 0, algorithm = None\<rparr>"

definition two_backend_balancer :: LoadBalancer where
  "two_backend_balancer = \<lparr>backends =
     [\<lparr>URL = ''http://localhost:8001'', Healthy = True, failureCount = 0, ActiveConnections = 3\<rparr>,
      \<lparr>URL = ''http://localhost:8002'', Healthy = True, failureCount = 0, ActiveConnections = 1\<rparr>],
     index = 0, algorithm = None\<rparr>"

section \<open>Backend: failure threshold and probe independence\<close>

lemma failureCount_IncrementFailure:
  "failureCount (IncrementFailure b) = failureCount b + 1"
  by (simp add: IncrementFailure_def Let_def)

lemma Healthy_IncrementFailure:
  "Healthy (IncrementFailure b) = (Healthy b \<and> \<not> 5 \<le>s failureCount b + 1)"
  by (simp add: IncrementFailure_def Let_def)

lemma threshold_inv_step: "threshold_inv b \<Longrightarrow> threshold_inv (apply_backend_op b x)"
  by (cases x)
     (simp_all add: threshold_inv_def MarkHealthy_def MarkUnHealthy_def
        Healthy_IncrementFailure failureCount_IncrementFailure word_sle_eq)

lemma threshold_inv_run: "threshold_inv b \<Longrightarrow> threshold_inv (run_backend_ops b ops)"
  unfolding run_backend_ops_def
  by (induction ops arbitrary: b) (simp_all add: threshold_inv_step)

lemma threshold_inv_initial: "failureCount b = 0 \<Longrightarrow> threshold_inv b"
  by (simp add: threshold_inv_def word_sle_eq)

text \<open>
  Claim C6. From a healthy backend whose failure counter is 0, each of the first four
  calls of \<^verbatim>\<open>IncrementFailure\<close> (the spec's RecordFailure) leaves the backend healthy,
  the fifth makes it unhealthy, and a following \<^verbatim>\<open>MarkHealthy\<close> makes it healthy again
  with the counter back at 0.
\<close>

theorem failure_threshold_five:
  assumes "Healthy b" and "failureCount b = 0"
  shows "Healthy (IncrementFailure b)
       \<and> Healthy (IncrementFailure (IncrementFailure b))
       \<and> Healthy (IncrementFailure (IncrementFailure (IncrementFailure b)))
       \<and> Healthy (IncrementFailure (IncrementFailure (IncrementFailure (IncrementFailure b))))
       \<and> \<not> Healthy (IncrementFailure (IncrementFailure (IncrementFailure
                      (IncrementFailure (IncrementFailure b)))))
       \<and> Healthy (MarkHealthy (IncrementFailure (IncrementFailure (IncrementFailure
                      (IncrementFailure (IncrementFailure b))))))
       \<and> failureCount (MarkHealthy (IncrementFailure (IncrementFailure (IncrementFailure
                      (IncrementFailure (IncrementFailure b)))))) = 0"
  using assms
  by (simp add: Healthy_IncrementFailure failureCount_IncrementFailure MarkHealthy_def
        word_sle_eq)

theorem failure_threshold_five_witness:
  "Healthy \<lparr>URL = ''http://localhost:8001'', Healthy = True, failureCount = 0,
            ActiveConnections = 0\<rparr>
   \<and> Healthy (IncrementFailure (IncrementFailure (IncrementFailure (IncrementFailure
        \<lparr>URL = ''http://localhost:8001'', Healthy = True, failureCount = 0,
         ActiveConnections = 0\<rparr>))))
   \<and> \<not> Healthy (IncrementFailure (IncrementFailure (IncrementFailure (IncrementFailure
        (IncrementFailure
          \<lparr>URL = ''http://localhost:8001'', Healthy = True, failureCount = 0,
           ActiveConnections = 0\<rparr>)))))"
  using failure_threshold_five
    [of "\<lparr>URL = ''http://localhost:8001'', Healthy = True, failureCount = 0,
          ActiveConnections = 0\<rparr>"]
  by simp

text \<open>
  Claim C7. The predicate "healthy is false whenever the failure counter is at least 5"
  holds of every backend whose counter is 0, is preserved by each of \<^verbatim>\<open>MarkHealthy\<close>,
  \<^verbatim>\<open>MarkUnHealthy\<close> and \<^verbatim>\<open>IncrementFailure\<close>, and so holds after every sequence of
  these operations run from such a backend.
\<close>

theorem threshold_invariant_preserved:
  "(failureCount b = 0 \<longrightarrow> threshold_inv b)
   \<and> (threshold_inv b \<longrightarrow> threshold_inv (apply_backend_op b x))
   \<and> (failureCount b = 0 \<longrightarrow> threshold_inv (run_backend_ops b ops))"
  by (simp add: threshold_inv_initial threshold_inv_step threshold_inv_run)

theorem threshold_invariant_preserved_witness:
  "failureCount \<lparr>URL = ''http://localhost:8001'', Healthy = True, failureCount = 0,
                 ActiveConnections = 0\<rparr> = 0
   \<and> threshold_inv \<lparr>URL = ''http://localhost:8001'', Healthy = True, failureCount = 0,
                 ActiveConnections = 0\<rparr>
   \<and> threshold_inv (apply_backend_op
        \<lparr>URL = ''http://localhost:8001'', Healthy = True, failureCount = 0,
         ActiveConnections = 0\<rparr> OpIncrementFailure)
   \<and> threshold_inv (run_backend_ops
        \<lparr>URL = ''http://localhost:8001'', Healthy = True, failureCount = 0,
         ActiveConnections = 0\<rparr>
        [OpIncrementFailure, OpIncrementFailure, OpIncrementFailure, OpIncrementFailure,
         OpIncrementFailure, OpMarkHealthy, OpMarkUnHealthy, OpIncrementFailure])
   \<and> \<not> Healthy (run_backend_ops
        \<lparr>URL = ''http://localhost:8001'', Healthy = True, failureCount = 0,
         ActiveConnections = 0\<rparr>
        [OpIncrementFailure, OpIncrementFailure, OpIncrementFailure, OpIncrementFailure,
         OpIncrementFailure])"
  using threshold_invariant_preserved
    [of "\<lparr>URL = ''http://localhost:8001'', Healthy = True, failureCount = 0,
          ActiveConnections = 0\<rparr>"
        OpIncrementFailure
        "[OpIncrementFailure, OpIncrementFailure, OpIncrementFailure, OpIncrementFailure,
          OpIncrementFailure, OpMarkHealthy, OpMarkUnHealthy, OpIncrementFailure]"]
  by (simp add: run_backend_ops_def Healthy_IncrementFailure failureCount_IncrementFailure
        word_sle_eq)

text \<open>
  Claim C8. For every backend state, \<^verbatim>\<open>MarkUnHealthy\<close> sets the healthy flag to false,
  also when the failure counter is 0, and leaves the failure counter, the URL and the
  active-connection count as they were.
\<close>

theorem MarkUnHealthy_frame:
  "\<not> Healthy (MarkUnHealthy b)
   \<and> failureCount (MarkUnHealthy b) = failureCount b
   \<and> URL (MarkUnHealthy b) = URL b
   \<and> ActiveConnections (MarkUnHealthy b) = ActiveConnections b
   \<and> MarkUnHealthy b = b\<lparr>Healthy := False\<rparr>
   \<and> \<not> Healthy (MarkUnHealthy (b\<lparr>failureCount := 0\<rparr>))
   \<and> failureCount (MarkUnHealthy (b\<lparr>failureCount := 0\<rparr>)) = 0"
  by (simp add: MarkUnHealthy_def)

section \<open>Round-robin selection\<close>

lemma ring_next_range:
  fixes i L :: int
  assumes "0 \<le> i" "i < L"
  shows "0 \<le> (i + 1) mod L \<and> (i + 1) mod L < L"
  using assms by simp

lemma ring_next_eq:
  fixes i L :: int
  assumes "0 \<le> i" "i < L"
  shows "(i + 1) mod L = (if i + 1 = L then 0 else i + 1)"
  using assms by simp

lemma ring_dist_zero:
  fixes s i L :: int
  assumes "0 \<le> s" "s < L" "0 \<le> i" "i < L"
  shows "(s = (i + 1) mod L) = ((s - i - 1) mod L = 0)"
proof (cases "i + 1 = L")
  case True
  then have "s - i - 1 = s - L" by simp
  then have "(s - i - 1) mod L = (s - L) mod L" by (rule arg_cong)
  then have "(s - i - 1) mod L = s" using assms by simp
  then show ?thesis using True assms by simp
next
  case False
  show ?thesis
  proof (cases "i + 1 \<le> s")
    case True
    then have "(s - i - 1) mod L = s - i - 1" using assms by simp
    then show ?thesis using False assms by (auto simp: ring_next_eq)
  next
    case F2: False
    have "(s - i - 1) mod L = (s - i - 1 + L) mod L" by simp
    also have "\<dots> = s - i - 1 + L"
      using F2 False assms by (intro mod_pos_pos_trivial) linarith+
    finally have "(s - i - 1) mod L = s - i - 1 + L" .
    then show ?thesis using False F2 assms by (auto simp: ring_next_eq)
  qed
qed

lemma ring_dist_step:
  fixes s i L :: int
  assumes "0 \<le> s" "s < L" "0 \<le> i" "i < L" "s \<noteq> (i + 1) mod L"
  shows "(s - (i + 1) mod L - 1) mod L = (s - i - 1) mod L - 1"
proof -
  have "(s - i - 1) mod L \<noteq> 0" using ring_dist_zero[OF assms(1-4)] assms(5) by simp
  moreover have "0 \<le> (s - i - 1) mod L" "(s - i - 1) mod L < L" using assms by simp_all
  ultimately have r: "0 \<le> (s - i - 1) mod L - 1" "(s - i - 1) mod L - 1 < L" by linarith+
  have "(s - (i + 1) mod L - 1) mod L = ((s - 1) - (i + 1) mod L) mod L"
    by (simp add: algebra_simps)
  also have "\<dots> = ((s - 1) - (i + 1)) mod L"
    by (rule mod_diff_right_eq)
  also have "\<dots> = ((s - i - 1) - 1) mod L"
    by (simp add: algebra_simps)
  also have "\<dots> = ((s - i - 1) mod L - 1) mod L" by (simp add: mod_diff_left_eq)
  also have "\<dots> = (s - i - 1) mod L - 1" using r by simp
  finally show ?thesis .
qed


lemma RoundRobin_loop_bounded_sound:
  "RoundRobin_loop_bounded n bs s i = Some r \<Longrightarrow> RoundRobin_loop bs s i = Some r"
proof (induction n arbitrary: i)
  case 0
  then show ?case by simp
next
  case (Suc n)
  then show ?case
    by (subst RoundRobin_loop.simps) (auto split: if_splits)
qed

lemma RoundRobin_loop_bounded_returns:
  assumes "0 \<le> s" "s < int (length bs)" "0 \<le> i" "i < int (length bs)"
    and "nat ((s - i - 1) mod int (length bs)) < n"
  shows "\<exists>r j. RoundRobin_loop_bounded n bs s i = Some (Inr (r, j))
           \<and> 0 \<le> j \<and> j < int (length bs)"
  using assms
proof (induction n arbitrary: i)
  case 0
  then show ?case by simp
next
  case (Suc n)
  let ?L = "int (length bs)"
  let ?i' = "(i + 1) mod ?L"
  have rng: "0 \<le> ?i'" "?i' < ?L"
    using ring_next_range [of i ?L] Suc.prems by simp_all
  show ?case
  proof (cases "IsHealthy (bs ! nat i)")
    case True
    then show ?thesis using Suc.prems rng by simp
  next
    case unhealthy: False
    show ?thesis
    proof (cases "s = ?i'")
      case True
      then show ?thesis using Suc.prems unhealthy rng by simp
    next
      case False
      have "(s - ?i' - 1) mod ?L = (s - i - 1) mod ?L - 1"
        using ring_dist_step [of s ?L i] Suc.prems False by simp
      moreover have "(s - i - 1) mod ?L \<noteq> 0"
        using ring_dist_zero [of s ?L i] Suc.prems False by simp
      moreover have "0 \<le> (s - i - 1) mod ?L"
        using rng by (intro pos_mod_sign) linarith
      ultimately have "nat ((s - ?i' - 1) mod ?L) < n"
        using Suc.prems(5) by linarith
      from Suc.IH [OF Suc.prems(1,2) rng this]
      show ?thesis using Suc.prems unhealthy False by simp
    qed
  qed
qed

lemma RoundRobin_loop_bounded_all_unhealthy:
  assumes "\<forall>b \<in> set bs. \<not> Healthy b"
    and "0 \<le> s" "s < int (length bs)" "0 \<le> i" "i < int (length bs)"
    and "nat ((s - i - 1) mod int (length bs)) < n"
  shows "RoundRobin_loop_bounded n bs s i = Some (Inr (None, s))"
  using assms
proof (induction n arbitrary: i)
  case 0
  then show ?case by simp
next
  case (Suc n)
  let ?L = "int (length bs)"
  let ?i' = "(i + 1) mod ?L"
  have rng: "0 \<le> ?i'" "?i' < ?L"
    using ring_next_range [of i ?L] Suc.prems by simp_all
  have unhealthy: "\<not> IsHealthy (bs ! nat i)"
    using Suc.prems by (simp add: IsHealthy_def)
  show ?case
  proof (cases "s = ?i'")
    case True
    then show ?thesis using Suc.prems unhealthy by simp
  next
    case False
    have "(s - ?i' - 1) mod ?L = (s - i - 1) mod ?L - 1"
      using ring_dist_step [of s ?L i] Suc.prems False by simp
    moreover have "(s - i - 1) mod ?L \<noteq> 0"
      using ring_dist_zero [of s ?L i] Suc.prems False by simp
    moreover have "0 \<le> (s - i - 1) mod ?L"
      using rng by (intro pos_mod_sign) linarith
    ultimately have "nat ((s - ?i' - 1) mod ?L) < n"
      using Suc.prems(6) by linarith
    from Suc.IH [OF Suc.prems(1,2,3) rng this]
    show ?thesis using Suc.prems unhealthy False by simp
  qed
qed

lemma one_wrap_suffices:
  fixes s :: int
  assumes "0 \<le> s" "s < int (length bs)"
  shows "nat ((s - s - 1) mod int (length bs)) < length bs"
proof -
  have "0 < int (length bs)" using assms by linarith
  then have "(- 1) mod int (length bs) = int (length bs) - 1"
    by (rule zmod_minus1)
  then show ?thesis using assms by simp
qed

lemma RoundRobin_NextBackend_healthy_at:
  assumes "0 \<le> i" "i < int (length bs)" "Healthy (bs ! nat i)"
  shows "RoundRobin_NextBackend i bs = Some (Inr (Some (nat i), (i + 1) mod int (length bs)))"
  unfolding RoundRobin_NextBackend_def
  using assms by (subst RoundRobin_loop.simps) (simp add: IsHealthy_def)

lemma RoundRobin_NextBackend_all_healthy:
  assumes "\<forall>b \<in> set bs. Healthy b" "0 \<le> i" "i < int (length bs)"
  shows "RoundRobin_NextBackend i bs = Some (Inr (Some (nat i), (i + 1) mod int (length bs)))"
  unfolding RoundRobin_NextBackend_def
  using assms by (subst RoundRobin_loop.simps) (simp add: IsHealthy_def)

lemma RoundRobin_calls_all_healthy:
  assumes "\<forall>b \<in> set bs. Healthy b"
  shows "m + k \<le> length bs \<Longrightarrow> m < length bs \<or> bs = [] \<Longrightarrow>
         RoundRobin_calls k (int m) bs
         = Some (Inr (map Some [m ..< m + k], int (m + k) mod int (length bs)))"
proof (induction k arbitrary: m)
  case 0
  then show ?case by auto
next
  case (Suc k)
  then have m: "int m < int (length bs)" by simp
  have first: "RoundRobin_NextBackend (int m) bs
        = Some (Inr (Some m, (int m + 1) mod int (length bs)))"
    using RoundRobin_NextBackend_all_healthy [OF assms _ m] by simp
  show ?case
  proof (cases "Suc m = length bs")
    case True
    then have "k = 0" using Suc.prems by simp
    moreover have "int m + 1 = int (length bs)" using True by simp
    then have "(int m + 1) mod int (length bs) = 0" by simp
    moreover have "int (m + Suc 0) mod int (length bs) = 0" using True by simp
    ultimately show ?thesis using first by (simp add: upt_conv_Cons)
  next
    case False
    then have "(int m + 1) mod int (length bs) = int (Suc m)"
      using m by simp
    moreover have "Suc m + k \<le> length bs" "Suc m < length bs \<or> bs = []"
      using Suc.prems False by simp_all
    ultimately show ?thesis
      using first Suc.IH [of "Suc m"] by (simp add: upt_conv_Cons)
  qed
qed

text \<open>
  Claim C4. On a list of \<open>N\<close> backends that are all healthy, \<open>N\<close> consecutive calls of
  \<^verbatim>\<open>RoundRobin.NextBackend\<close> from a fresh cursor (index 0) return the backends at
  positions \<open>0, 1, \<dots>, N - 1\<close> in this order, each exactly once, and leave the cursor
  at 0 again.
\<close>

theorem round_robin_fairness:
  assumes "\<forall>b \<in> set bs. Healthy b"
  shows "RoundRobin_calls (length bs) 0 bs
         = Some (Inr (map Some [0 ..< length bs], 0))"
  using RoundRobin_calls_all_healthy [OF assms, of 0 "length bs"] by auto

theorem round_robin_fairness_witness:
  "RoundRobin_calls 3 0
     [\<lparr>URL = ''http://localhost:8001'', Healthy = True, failureCount = 0, ActiveConnections = 4\<rparr>,
      \<lparr>URL = ''http://localhost:8002'', Healthy = True, failureCount = 2, ActiveConnections = 0\<rparr>,
      \<lparr>URL = ''http://localhost:8003'', Healthy = True, failureCount = 0, ActiveConnections = 1\<rparr>]
   = Some (Inr ([Some 0, Some 1, Some 2], 0))"
  using round_robin_fairness
    [of "[\<lparr>URL = ''http://localhost:8001'', Healthy = True, failureCount = 0, ActiveConnections = 4\<rparr>,
      \<lparr>URL = ''http://localhost:8002'', Healthy = True, failureCount = 2, ActiveConnections = 0\<rparr>,
      \<lparr>URL = ''http://localhost:8003'', Healthy = True, failureCount = 0, ActiveConnections = 1\<rparr>]"]
  by (simp add: upt_conv_Cons numeral_3_eq_3)

text \<open>
  Claim C5. On a non-empty list whose backends are all unhealthy,
  \<^verbatim>\<open>RoundRobin.NextBackend\<close> returns nil ("none available") from every cursor position
  of the ring, a single-backend list included; as many loop iterations as the list has
  backends (one full wrap) suffice, and the cursor is back where it started.
\<close>

theorem round_robin_exhaustion:
  assumes "bs \<noteq> []" "\<forall>b \<in> set bs. \<not> Healthy b"
    and "0 \<le> idx" "idx < int (length bs)"
  shows "RoundRobin_loop_bounded (length bs) bs idx idx = Some (Inr (None, idx))
       \<and> RoundRobin_NextBackend idx bs = Some (Inr (None, idx))"
proof -
  have "RoundRobin_loop_bounded (length bs) bs idx idx = Some (Inr (None, idx))"
    using RoundRobin_loop_bounded_all_unhealthy
      [OF assms(2) assms(3,4) assms(3,4) one_wrap_suffices [OF assms(3,4)]] .
  then show ?thesis
    by (simp add: RoundRobin_NextBackend_def RoundRobin_loop_bounded_sound)
qed

theorem round_robin_exhaustion_witness:
  "RoundRobin_NextBackend 0
     [\<lparr>URL = ''http://localhost:8001'', Healthy = False, failureCount = 5, ActiveConnections = 0\<rparr>]
     = Some (Inr (None, 0))
   \<and> RoundRobin_loop_bounded (Suc 0)
     [\<lparr>URL = ''http://localhost:8001'', Healthy = False, failureCount = 5, ActiveConnections = 0\<rparr>]
     0 0 = Some (Inr (None, 0))
   \<and> RoundRobin_NextBackend 1
     [\<lparr>URL = ''http://localhost:8001'', Healthy = False, failureCount = 5, ActiveConnections = 0\<rparr>,
      \<lparr>URL = ''http://localhost:8002'', Healthy = False, failureCount = 0, ActiveConnections = 2\<rparr>]
     = Some (Inr (None, 1))"
  using round_robin_exhaustion
    [of "[\<lparr>URL = ''http://localhost:8001'', Healthy = False, failureCount = 5,
           ActiveConnections = 0\<rparr>]" 0]
    round_robin_exhaustion
    [of "[\<lparr>URL = ''http://localhost:8001'', Healthy = False, failureCount = 5,
           ActiveConnections = 0\<rparr>,
          \<lparr>URL = ''http://localhost:8002'', Healthy = False, failureCount = 0,
           ActiveConnections = 2\<rparr>]" 1]
  by simp

text \<open>
  Claim C10. On a non-empty list and a cursor inside \<open>[0, length)\<close>, a call of
  \<^verbatim>\<open>RoundRobin.NextBackend\<close> returns without an index-out-of-range panic and leaves the
  cursor inside \<open>[0, length)\<close>, so that the same holds of the next call. On the empty
  list the first index access panics: the call does not return nil, neither directly nor
  through \<^verbatim>\<open>LoadBalancer.NextBackend\<close> with its default strategy.
\<close>

theorem round_robin_in_bounds:
  "(bs \<noteq> [] \<and> 0 \<le> idx \<and> idx < int (length bs) \<longrightarrow>
      (\<exists>r idx'. RoundRobin_NextBackend idx bs = Some (Inr (r, idx'))
          \<and> 0 \<le> idx' \<and> idx' < int (length bs)))
   \<and> RoundRobin_NextBackend idx [] = Some (Inl IndexOutOfRange)
   \<and> NextBackend \<lparr>backends = [], index = k, algorithm = None\<rparr> = Some (Inl IndexOutOfRange)"
proof (intro conjI impI)
  assume a: "bs \<noteq> [] \<and> 0 \<le> idx \<and> idx < int (length bs)"
  then have r: "0 \<le> idx" "idx < int (length bs)" by simp_all
  from RoundRobin_loop_bounded_returns [OF r r one_wrap_suffices [OF r]]
  obtain r j where "RoundRobin_loop_bounded (length bs) bs idx idx = Some (Inr (r, j))"
    and "0 \<le> j" "j < int (length bs)" by blast
  then show "\<exists>r idx'. RoundRobin_NextBackend idx bs = Some (Inr (r, idx'))
          \<and> 0 \<le> idx' \<and> idx' < int (length bs)"
    by (auto simp: RoundRobin_NextBackend_def dest: RoundRobin_loop_bounded_sound)
next
  show e: "RoundRobin_NextBackend idx [] = Some (Inl IndexOutOfRange)"
    unfolding RoundRobin_NextBackend_def by (subst RoundRobin_loop.simps) auto
  have "RoundRobin_NextBackend 0 [] = Some (Inl IndexOutOfRange)"
    unfolding RoundRobin_NextBackend_def by (subst RoundRobin_loop.simps) auto
  then show "NextBackend \<lparr>backends = [], index = k, algorithm = None\<rparr> = Some (Inl IndexOutOfRange)"
    by (simp add: NextBackend_def)
qed


theorem round_robin_in_bounds_witness:
  "(\<exists>r idx'. RoundRobin_NextBackend 1
     [\<lparr>URL = ''http://localhost:8001'', Healthy = True, failureCount = 0, ActiveConnections = 0\<rparr>,
      \<lparr>URL = ''http://localhost:8002'', Healthy = False, failureCount = 0, ActiveConnections = 2\<rparr>]
     = Some (Inr (r, idx')) \<and> 0 \<le> idx' \<and> idx' < 2)
   \<and> RoundRobin_NextBackend 1 [] = Some (Inl IndexOutOfRange)
   \<and> NextBackend \<lparr>backends = [], index = 0, algorithm = None\<rparr> = Some (Inl IndexOutOfRange)"
  using round_robin_in_bounds
    [of "[\<lparr>URL = ''http://localhost:8001'', Healthy = True, failureCount = 0,
           ActiveConnections = 0\<rparr>,
          \<lparr>URL = ''http://localhost:8002'', Healthy = False, failureCount = 0,
           ActiveConnections = 2\<rparr>]" 1 0]
  by simp

section \<open>Least-connection selection\<close>

lemma sint_MaxInt64: "sint MaxInt64 = 9223372036854775807"
  by (simp add: MaxInt64_def)

lemma not_sless_MaxInt64: "(\<not> x <s MaxInt64) = (x = MaxInt64)"
proof
  assume "\<not> x <s MaxInt64"
  moreover have "sint x < 2 ^ (LENGTH(64) - 1)" by (rule sint_lt)
  ultimately have "sint x = sint MaxInt64"
    by (simp add: word_sless_alt sint_MaxInt64)
  then show "x = MaxInt64" by (rule signed_word_eqI)
next
  assume "x = MaxInt64"
  then show "\<not> x <s MaxInt64" by (simp add: word_sless_alt)
qed

lemma least_connected_snoc_keep:
  assumes "least_connected pre p"
    and "Healthy x \<longrightarrow> ActiveConnections (pre ! p) \<le>s ActiveConnections x"
  shows "least_connected (pre @ [x]) p"
  using assms
  by (auto simp: least_connected_def nth_append less_Suc_eq)

lemma least_connected_snoc_new:
  assumes "Healthy x"
    and "\<forall>q < length pre. Healthy (pre ! q) \<longrightarrow> ActiveConnections x <s ActiveConnections (pre ! q)"
  shows "least_connected (pre @ [x]) (length pre)"
proof -
  have "ActiveConnections x \<le>s ActiveConnections ((pre @ [x]) ! q)"
    if "q < length (pre @ [x])" "Healthy ((pre @ [x]) ! q)" for q
  proof (cases "q < length pre")
    case True
    then have "ActiveConnections x <s ActiveConnections (pre ! q)"
      using assms(2) that by (simp add: nth_append)
    then show ?thesis using True by (simp add: nth_append word_sless_alt word_sle_eq)
  next
    case False
    then have "q = length pre" using that by simp
    then show ?thesis by simp
  qed
  then show ?thesis
    using assms by (simp add: least_connected_def nth_append)
qed

lemma scan_inv_step:
  assumes "scan_inv pre best mn"
  shows "scan_inv (pre @ [x])
           (if \<not> IsHealthy x then best
            else if ActiveConnections x <s mn then Some (length pre) else best)
           (if \<not> IsHealthy x then mn
            else if ActiveConnections x <s mn then ActiveConnections x else mn)"
proof (cases best)
  case None
  then have mn: "mn = MaxInt64"
    and pre: "\<forall>b \<in> set pre. Healthy b \<longrightarrow> ActiveConnections b = MaxInt64"
    using assms by (simp_all add: scan_inv_def)
  show ?thesis
  proof (cases "Healthy x \<and> ActiveConnections x <s mn")
    case True
    then have "\<forall>q < length pre. Healthy (pre ! q) \<longrightarrow>
                 ActiveConnections x <s ActiveConnections (pre ! q)"
      using pre mn by simp
    with True have "least_connected (pre @ [x]) (length pre)"
      by (intro least_connected_snoc_new) simp_all
    then show ?thesis using True mn by (simp add: scan_inv_def IsHealthy_def)
  next
    case False
    then have "Healthy x \<longrightarrow> ActiveConnections x = MaxInt64"
      using mn by (simp add: not_sless_MaxInt64)
    then show ?thesis using False None mn pre by (auto simp: scan_inv_def IsHealthy_def)
  qed
next
  case (Some p)
  then have mn: "mn = ActiveConnections (pre ! p)" and below: "mn <s MaxInt64"
    and lc: "least_connected pre p"
    using assms by (auto simp: scan_inv_def)
  then have p: "p < length pre" by (simp add: least_connected_def)
  show ?thesis
  proof (cases "Healthy x \<and> ActiveConnections x <s mn")
    case True
    have "\<forall>q < length pre. Healthy (pre ! q) \<longrightarrow>
                 ActiveConnections x <s ActiveConnections (pre ! q)"
    proof (intro allI impI)
      fix q assume "q < length pre" "Healthy (pre ! q)"
      then have "mn \<le>s ActiveConnections (pre ! q)"
        using lc mn by (simp add: least_connected_def)
      then show "ActiveConnections x <s ActiveConnections (pre ! q)"
        using True by (simp add: word_sless_alt word_sle_eq)
    qed
    with True have "least_connected (pre @ [x]) (length pre)"
      by (intro least_connected_snoc_new) simp_all
    moreover have "ActiveConnections x <s MaxInt64"
      using True below by (simp add: word_sless_alt)
    ultimately show ?thesis using True by (simp add: scan_inv_def IsHealthy_def)
  next
    case False
    then have "Healthy x \<longrightarrow> ActiveConnections (pre ! p) \<le>s ActiveConnections x"
      using mn by (auto simp: word_sless_alt word_sle_eq)
    from least_connected_snoc_keep [OF lc this]
    show ?thesis using False Some mn below p
      by (auto simp: scan_inv_def IsHealthy_def nth_append)
  qed
qed

lemma LeastConnection_loop_inv:
  "scan_inv pre best mn \<Longrightarrow>
   \<exists>mn'. scan_inv (pre @ xs) (LeastConnection_loop xs (length pre) best mn) mn'"
proof (induction xs arbitrary: pre best mn)
  case Nil
  then show ?case by auto
next
  case (Cons x xs)
  let ?best = "if \<not> IsHealthy x then best
               else if ActiveConnections x <s mn then Some (length pre) else best"
  let ?mn = "if \<not> IsHealthy x then mn
             else if ActiveConnections x <s mn then ActiveConnections x else mn"
  have unroll: "LeastConnection_loop (x # xs) (length pre) best mn
        = LeastConnection_loop xs (length (pre @ [x])) ?best ?mn"
    by simp
  have "scan_inv (pre @ [x]) ?best ?mn"
    by (rule scan_inv_step [OF Cons.prems])
  from Cons.IH [OF this] show ?case
    unfolding unroll by simp
qed

lemma LeastConnection_NextBackend_None:
  assumes "LeastConnection_NextBackend bs = None"
  shows "\<forall>b \<in> set bs. Healthy b \<longrightarrow> ActiveConnections b = MaxInt64"
proof -
  have "scan_inv [] None MaxInt64" by (simp add: scan_inv_def)
  from LeastConnection_loop_inv [OF this, of bs]
  show ?thesis using assms by (simp add: LeastConnection_NextBackend_def scan_inv_def)
qed

lemma LeastConnection_NextBackend_Some:
  assumes "LeastConnection_NextBackend bs = Some p"
  shows "least_connected bs p"
proof -
  have "scan_inv [] None MaxInt64" by (simp add: scan_inv_def)
  from LeastConnection_loop_inv [OF this, of bs]
  show ?thesis using assms by (simp add: LeastConnection_NextBackend_def scan_inv_def)
qed

lemma LeastConnection_NextBackend_Some_below:
  assumes "LeastConnection_NextBackend bs = Some p"
  shows "ActiveConnections (bs ! p) <s MaxInt64"
proof -
  have "scan_inv [] None MaxInt64" by (simp add: scan_inv_def)
  from LeastConnection_loop_inv [OF this, of bs]
  show ?thesis using assms by (auto simp: LeastConnection_NextBackend_def scan_inv_def)
qed

lemma LeastConnection_NextBackend_None_iff:
  "(LeastConnection_NextBackend bs = None)
   = (\<forall>b \<in> set bs. Healthy b \<longrightarrow> ActiveConnections b = MaxInt64)"
proof
  assume "LeastConnection_NextBackend bs = None"
  then show "\<forall>b \<in> set bs. Healthy b \<longrightarrow> ActiveConnections b = MaxInt64"
    by (rule LeastConnection_NextBackend_None)
next
  assume all: "\<forall>b \<in> set bs. Healthy b \<longrightarrow> ActiveConnections b = MaxInt64"
  show "LeastConnection_NextBackend bs = None"
  proof (cases "LeastConnection_NextBackend bs")
    case None
    then show ?thesis .
  next
    case (Some p)
    then have "least_connected bs p" by (rule LeastConnection_NextBackend_Some)
    then have "Healthy (bs ! p)" "bs ! p \<in> set bs"
      by (simp_all add: least_connected_def)
    with all have "ActiveConnections (bs ! p) = MaxInt64" by blast
    moreover have "ActiveConnections (bs ! p) <s MaxInt64"
      using Some by (rule LeastConnection_NextBackend_Some_below)
    ultimately show ?thesis by (simp add: word_sless_alt)
  qed
qed

text \<open>
  Claim C3. On every backend list, a backend that \<^verbatim>\<open>LeastConnection.NextBackend\<close> returns
  is the earliest healthy backend whose active-connection count is minimal among the
  healthy ones (on ties the first one), and the call returns nil exactly when every
  healthy backend has the count \<^verbatim>\<open>math.MaxInt64\<close>. So on every list other than those that
  have a healthy backend and all their healthy backends at \<^verbatim>\<open>math.MaxInt64\<close>, it returns nil
  exactly when the list has no healthy backend.
\<close>

theorem least_connection_minimum:
  "(\<forall>p. LeastConnection_NextBackend bs = Some p \<longrightarrow> least_connected bs p)
   \<and> (LeastConnection_NextBackend bs = None)
       = (\<forall>b \<in> set bs. Healthy b \<longrightarrow> ActiveConnections b = MaxInt64)
   \<and> ((\<forall>b \<in> set bs. \<not> Healthy b)
        \<or> (\<exists>b \<in> set bs. Healthy b \<and> ActiveConnections b \<noteq> MaxInt64)
       \<longrightarrow> (LeastConnection_NextBackend bs = None) = (\<forall>b \<in> set bs. \<not> Healthy b))"
proof (intro conjI allI impI)
  fix p assume "LeastConnection_NextBackend bs = Some p"
  then show "least_connected bs p" by (rule LeastConnection_NextBackend_Some)
next
  show "(LeastConnection_NextBackend bs = None)
       = (\<forall>b \<in> set bs. Healthy b \<longrightarrow> ActiveConnections b = MaxInt64)"
    by (rule LeastConnection_NextBackend_None_iff)
next
  assume "(\<forall>b \<in> set bs. \<not> Healthy b)
        \<or> (\<exists>b \<in> set bs. Healthy b \<and> ActiveConnections b \<noteq> MaxInt64)"
  then show "(LeastConnection_NextBackend bs = None) = (\<forall>b \<in> set bs. \<not> Healthy b)"
    unfolding LeastConnection_NextBackend_None_iff by blast
qed

theorem least_connection_minimum_witness:
  "LeastConnection_NextBackend
     [\<lparr>URL = ''http://localhost:8001'', Healthy = False, failureCount = 5, ActiveConnections = 0\<rparr>,
      \<lparr>URL = ''http://localhost:8002'', Healthy = True, failureCount = 0,
       ActiveConnections = 0x7FFFFFFFFFFFFFFF\<rparr>,
      \<lparr>URL = ''http://localhost:8003'', Healthy = True, failureCount = 0, ActiveConnections = 1\<rparr>,
      \<lparr>URL = ''http://localhost:8004'', Healthy = True, failureCount = 0, ActiveConnections = 1\<rparr>]
     = Some (Suc (Suc 0))
   \<and> least_connected
     [\<lparr>URL = ''http://localhost:8001'', Healthy = False, failureCount = 5, ActiveConnections = 0\<rparr>,
      \<lparr>URL = ''http://localhost:8002'', Healthy = True, failureCount = 0,
       ActiveConnections = 0x7FFFFFFFFFFFFFFF\<rparr>,
      \<lparr>URL = ''http://localhost:8003'', Healthy = True, failureCount = 0, ActiveConnections = 1\<rparr>,
      \<lparr>URL = ''http://localhost:8004'', Healthy = True, failureCount = 0, ActiveConnections = 1\<rparr>]
     (Suc (Suc 0))
   \<and> Healthy \<lparr>URL = ''http://localhost:8003'', Healthy = True, failureCount = 0,
               ActiveConnections = 1\<rparr>
   \<and> ActiveConnections \<lparr>URL = ''http://localhost:8003'', Healthy = True, failureCount = 0,
               ActiveConnections = 1\<rparr> \<noteq> MaxInt64
   \<and> LeastConnection_NextBackend
     [\<lparr>URL = ''http://localhost:8001'', Healthy = False, failureCount = 5, ActiveConnections = 0\<rparr>]
     = None"
  using least_connection_minimum
    [of "[\<lparr>URL = ''http://localhost:8001'', Healthy = False, failureCount = 5, ActiveConnections = 0\<rparr>,
      \<lparr>URL = ''http://localhost:8002'', Healthy = True, failureCount = 0,
       ActiveConnections = 0x7FFFFFFFFFFFFFFF\<rparr>,
      \<lparr>URL = ''http://localhost:8003'', Healthy = True, failureCount = 0, ActiveConnections = 1\<rparr>,
      \<lparr>URL = ''http://localhost:8004'', Healthy = True, failureCount = 0, ActiveConnections = 1\<rparr>]"]
    least_connection_minimum
    [of "[\<lparr>URL = ''http://localhost:8001'', Healthy = False, failureCount = 5,
           ActiveConnections = 0\<rparr>]"]
  by (simp add: LeastConnection_NextBackend_def IsHealthy_def MaxInt64_def word_sless_alt)

text \<open>
  With "no healthy backend" in place of "every healthy backend at \<^verbatim>\<open>math.MaxInt64\<close>" the
  property fails: when the only healthy backend has the count \<^verbatim>\<open>math.MaxInt64\<close>, the strict
  comparison against the initial \<^verbatim>\<open>min\<close> is false and the call returns nil although a
  healthy backend exists.
\<close>

theorem least_connection_sentinel_counterexample:
  "LeastConnection_NextBackend
     [\<lparr>URL = ''http://localhost:8001'', Healthy = True, failureCount = 0,
       ActiveConnections = 0x7FFFFFFFFFFFFFFF\<rparr>] = None
   \<and> Healthy \<lparr>URL = ''http://localhost:8001'', Healthy = True, failureCount = 0,
       ActiveConnections = 0x7FFFFFFFFFFFFFFF\<rparr>"
  by (simp add: LeastConnection_NextBackend_def IsHealthy_def MaxInt64_def word_sless_alt)

section \<open>Strategy swap, admin route and connection counting\<close>

text \<open>
  Claim C9. After \<^verbatim>\<open>SetAlgorithm\<close> the very next \<^verbatim>\<open>NextBackend\<close> of the balancer is the
  new strategy's selection on the balancer's backends: least-connection selection, or
  round-robin from cursor 0 for a fresh \<^verbatim>\<open>RoundRobin\<close> object, whatever strategy and cursor
  the balancer held before. With no strategy ever set the call behaves as round-robin from
  a fresh cursor, and after every call that returns, the strategy is set.
\<close>

theorem strategy_swap_immediate:
  "NextBackend (SetAlgorithm lb LeastConnection)
     = Some (Inr (LeastConnection_NextBackend (backends lb),
                  lb\<lparr>algorithm := Some LeastConnection\<rparr>))
   \<and> NextBackend (SetAlgorithm lb (RoundRobin 0))
     = (case RoundRobin_NextBackend 0 (backends lb) of
          None \<Rightarrow> None
        | Some (Inl e) \<Rightarrow> Some (Inl e)
        | Some (Inr (r, idx')) \<Rightarrow> Some (Inr (r, lb\<lparr>algorithm := Some (RoundRobin idx')\<rparr>)))
   \<and> NextBackend (SetAlgorithm (lb\<lparr>algorithm := old\<rparr>) algo) = NextBackend (SetAlgorithm lb algo)
   \<and> (algorithm lb = None \<longrightarrow> NextBackend lb = NextBackend (SetAlgorithm lb (RoundRobin 0)))
   \<and> (\<forall>r lb'. NextBackend lb = Some (Inr (r, lb')) \<longrightarrow> algorithm lb' \<noteq> None)"
  by (auto simp: NextBackend_def SetAlgorithm_def split: option.splits sum.splits prod.splits)

theorem strategy_swap_immediate_witness:
  "algorithm two_backend_balancer = None
   \<and> NextBackend two_backend_balancer = Some (Inr (Some 0, two_backend_balancer\<lparr>algorithm := Some (RoundRobin 1)\<rparr>))
   \<and> NextBackend (SetAlgorithm (two_backend_balancer\<lparr>algorithm := Some (RoundRobin 1)\<rparr>) LeastConnection)
       = Some (Inr (Some 1, two_backend_balancer\<lparr>algorithm := Some LeastConnection\<rparr>))
   \<and> NextBackend (SetAlgorithm (two_backend_balancer\<lparr>algorithm := Some (RoundRobin 1)\<rparr>) (RoundRobin 0))
       = Some (Inr (Some 0, two_backend_balancer\<lparr>algorithm := Some (RoundRobin 1)\<rparr>))"
  using strategy_swap_immediate [of two_backend_balancer "Some (RoundRobin 1)" LeastConnection]
    strategy_swap_immediate [of two_backend_balancer "Some (RoundRobin 1)" "RoundRobin 0"]
    RoundRobin_NextBackend_healthy_at [of 0 "backends two_backend_balancer"]
  by (simp add: two_backend_balancer_def LeastConnection_NextBackend_def IsHealthy_def MaxInt64_def
        word_sless_alt SetAlgorithm_def)


lemma AddActiveConnections_inc_dec:
  "p < length (backends lb) \<Longrightarrow>
   AddActiveConnections (AddActiveConnections lb p 1) p (- 1) = lb"
  by (simp add: AddActiveConnections_def list_update_same_conv)

lemma ServeHTTP_recognised:
  assumes "Path r = ''/change-algorithm''" "Method r = ''POST''" "status w = None"
  shows "Query_Get r ''algorithm'' = ''round-robin'' \<Longrightarrow>
           ServeHTTP lb w r = (lb\<lparr>algorithm := Some (RoundRobin 0)\<rparr>, w\<lparr>status := Some 200\<rparr>)"
    and "Query_Get r ''algorithm'' = ''least-connection'' \<Longrightarrow>
           ServeHTTP lb w r = (lb\<lparr>algorithm := Some LeastConnection\<rparr>, w\<lparr>status := Some 200\<rparr>)"
    and "Query_Get r ''algorithm'' \<noteq> ''round-robin'' \<Longrightarrow>
         Query_Get r ''algorithm'' \<noteq> ''least-connection'' \<Longrightarrow>
           ServeHTTP lb w r = (lb, w\<lparr>status := Some 400\<rparr>)"
  using assms
  by (simp_all add: ServeHTTP_def SetAlgorithm_def WriteHeader_def StatusOK_def
        StatusNotFound_def StatusBadRequest_def)

lemma ServeHTTP_other:
  assumes "Path r \<noteq> ''/change-algorithm'' \<or> Method r \<noteq> ''POST''" "status w = None"
  shows "ServeHTTP lb w r = (lb, w\<lparr>status := Some 404\<rparr>)"
  using assms
  by (auto simp: ServeHTTP_def WriteHeader_def StatusNotFound_def)

lemma main_mux_never_changes_algorithm:
  assumes "main_mux r = ToLoadBalancer" "status w = None"
  shows "ServeHTTP lb w r = (lb, w\<lparr>status := Some 404\<rparr>)"
  using assms
  by (intro ServeHTTP_other) (auto simp: main_mux_def split: if_splits)

text \<open>
  Claim C2. \<^verbatim>\<open>main\<close> routes \<^verbatim>\<open>POST /admin/change-algorithm\<close> to the balancer's handler,
  which compares the path with \<^verbatim>\<open>/change-algorithm\<close>: the request
  \<^verbatim>\<open>POST /admin/change-algorithm?algorithm=least-connection\<close> is answered 404 and the
  strategy stays as it was, where the claim says 200 and a changed strategy; and
  \<^verbatim>\<open>POST /change-algorithm\<close> is routed to the reverse proxy, not to the handler.
\<close>

theorem admin_route_not_found:
  "main_mux \<lparr>Path = ''/admin/change-algorithm'', Method = ''POST'',
             Query = [(''algorithm'', ''least-connection'')]\<rparr> = ToLoadBalancer
   \<and> ServeHTTP single_backend_balancer \<lparr>status = None, body = []\<rparr>
        \<lparr>Path = ''/admin/change-algorithm'', Method = ''POST'',
         Query = [(''algorithm'', ''least-connection'')]\<rparr>
       = (single_backend_balancer, \<lparr>status = Some 404, body = []\<rparr>)
   \<and> main_mux \<lparr>Path = ''/change-algorithm'', Method = ''POST'',
             Query = [(''algorithm'', ''least-connection'')]\<rparr> = ToReverseProxy"
  by (simp add: main_mux_def ServeHTTP_def WriteHeader_def StatusNotFound_def)

text \<open>
  Claim C1. A request is dispatched to the only backend, whose active-connection count
  is 0: \<^verbatim>\<open>Director\<close> raises the count to 1. The forwarded call fails and
  \<^verbatim>\<open>ErrorHandler\<close> runs; it leaves the count at 1, both on the context of the request the
  proxy holds and on the context \<^verbatim>\<open>Director\<close> built, where the claim says that the count
  is back at 0 once the request has completed.
\<close>

theorem failed_request_leaks_connection:
  "Director single_backend_balancer \<lparr>reqURL = ''/'', reqContext = \<lparr>loadBalancerErrValue = None, backendValue = None\<rparr>\<rparr>
     = Some (Inr
        (\<lparr>backends =
            [\<lparr>URL = ''http://localhost:8001'', Healthy = True, failureCount = 0,
              ActiveConnections = 1\<rparr>],
          index = 0, algorithm = Some (RoundRobin 0)\<rparr>,
         \<lparr>reqURL = ''http://localhost:8001/'',
          reqContext = \<lparr>loadBalancerErrValue = None, backendValue = None\<rparr>\<rparr>,
         \<lparr>loadBalancerErrValue = None, backendValue = Some 0\<rparr>))
   \<and> ErrorHandler
        \<lparr>backends =
            [\<lparr>URL = ''http://localhost:8001'', Healthy = True, failureCount = 0,
              ActiveConnections = 1\<rparr>],
          index = 0, algorithm = Some (RoundRobin 0)\<rparr>
        \<lparr>status = None, body = []\<rparr>
        \<lparr>loadBalancerErrValue = None, backendValue = None\<rparr>
     = (\<lparr>backends =
            [\<lparr>URL = ''http://localhost:8001'', Healthy = True, failureCount = 0,
              ActiveConnections = 1\<rparr>],
          index = 0, algorithm = Some (RoundRobin 0)\<rparr>,
        \<lparr>status = Some 502, body = ''Bad Gateway''\<rparr>)
   \<and> ErrorHandler
        \<lparr>backends =
            [\<lparr>URL = ''http://localhost:8001'', Healthy = True, failureCount = 0,
              ActiveConnections = 1\<rparr>],
          index = 0, algorithm = Some (RoundRobin 0)\<rparr>
        \<lparr>status = None, body = []\<rparr>
        \<lparr>loadBalancerErrValue = None, backendValue = Some 0\<rparr>
     = (\<lparr>backends =
            [\<lparr>URL = ''http://localhost:8001'', Healthy = True, failureCount = 1,
              ActiveConnections = 1\<rparr>],
          index = 0, algorithm = Some (RoundRobin 0)\<rparr>,
        \<lparr>status = Some 502, body = ''Bad Gateway''\<rparr>)"
proof -
  have "RoundRobin_NextBackend 0 (backends single_backend_balancer) = Some (Inr (Some 0, 0))"
    using RoundRobin_NextBackend_healthy_at [of 0 "backends single_backend_balancer"] by (simp add: single_backend_balancer_def)
  then show ?thesis
    by (simp add: Director_def NextBackend_def single_backend_balancer_def AddActiveConnections_def
          ErrorHandler_def IncrementFailure_def Write_def WriteHeader_def
          StatusBadGateway_def word_sle_eq)
qed

end
